theory Spec2Isabelle
  imports Main
begin

section \<open>Python values and exceptions\<close>

text \<open>
  A Python reference is either \<open>None\<close> or an object. The queue stores arbitrary
  references, \<open>next_status\<close> returns \<open>str | None\<close>, and \<open>dequeue\<close> returns either a stored
  reference or \<open>None\<close>; all three use this one type, so that \<open>None\<close> the stored item and
  \<open>None\<close> the sentinel are the same value, as they are in Python.
\<close>

datatype 'a pyval = PyNone | Obj 'a

text \<open>A raised exception: the name of its class and the message it carries.\<close>

datatype pyexc = PyExc (exc_class: string) (exc_msg: string)

text \<open>\<open>str(v)\<close> as an f-string formats it, for a string or \<open>None\<close>.\<close>

fun str_of :: "string pyval \<Rightarrow> string" where
  "str_of PyNone = ''None''"
| "str_of (Obj s) = s"

section \<open>custom\_queue.py: the FIFO queue\<close>

text \<open>
  The class \<open>Queue\<close> holds a list \<open>_buffer\<close> and a lock. Every method body runs under the
  lock, so in a sequential run each call is one atomic step on the buffer; the lock itself
  carries no data and is not part of the state. A method that mutates the object returns
  the updated queue.
\<close>

record 'a Queue =
  buffer :: "'a pyval list"

text \<open>\<open>__init__\<close>: an empty buffer.\<close>

definition Queue_init :: "'a Queue" where
  "Queue_init = \<lparr>buffer = []\<rparr>"

text \<open>\<open>_is_empty_unsafe\<close>: \<open>len(self._buffer) == 0\<close>.\<close>

definition is_empty_unsafe :: "'a Queue \<Rightarrow> bool" where
  "is_empty_unsafe q = (length (buffer q) = 0)"

text \<open>\<open>enqueue\<close>: \<open>self._buffer.insert(0, value)\<close> puts the value at index 0.\<close>

definition enqueue :: "'a pyval \<Rightarrow> 'a Queue \<Rightarrow> 'a Queue" where
  "enqueue v q = q\<lparr>buffer := v # buffer q\<rparr>"

text \<open>
  \<open>dequeue\<close>: when the buffer is not empty, \<open>self._buffer.pop()\<close> removes and returns the
  last element; otherwise the method returns \<open>None\<close> and leaves the buffer alone. The
  result is the returned reference together with the queue after the call.
\<close>

definition dequeue :: "'a Queue \<Rightarrow> 'a pyval \<times> 'a Queue" where
  "dequeue q =
     (if \<not> is_empty_unsafe q
      then (last (buffer q), q\<lparr>buffer := butlast (buffer q)\<rparr>)
      else (PyNone, q))"

text \<open>\<open>is_empty\<close> and \<open>size\<close> read the buffer under the lock.\<close>

definition is_empty :: "'a Queue \<Rightarrow> bool" where
  "is_empty q = is_empty_unsafe q"

definition size_q :: "'a Queue \<Rightarrow> nat" where
  "size_q q = length (buffer q)"

text \<open>\<open>__repr__\<close> lists the items oldest first: \<open>list(reversed(self._buffer))\<close>.\<close>

definition repr_items :: "'a Queue \<Rightarrow> 'a pyval list" where
  "repr_items q = rev (buffer q)"

subsection \<open>Driving the queue\<close>

text \<open>\<open>for v in vs: q.enqueue(v)\<close>.\<close>

fun enqueue_all :: "'a pyval list \<Rightarrow> 'a Queue \<Rightarrow> 'a Queue" where
  "enqueue_all [] q = q"
| "enqueue_all (v # vs) q = enqueue_all vs (enqueue v q)"

text \<open>\<open>[q.dequeue() for _ in range(n)]\<close>: the results in call order, and the queue left.\<close>

fun dequeue_n :: "nat \<Rightarrow> 'a Queue \<Rightarrow> 'a pyval list \<times> 'a Queue" where
  "dequeue_n 0 q = ([], q)"
| "dequeue_n (Suc n) q =
     (case dequeue q of (r, q') \<Rightarrow>
        (case dequeue_n n q' of (rs, q'') \<Rightarrow> (r # rs, q'')))"

text \<open>
  A sequential client of the queue: a list of calls, run in order. \<open>run_ops\<close> gives the
  queue after the calls and \<open>dequeue_results\<close> the value each \<open>dequeue\<close> call returned, in
  call order.
\<close>

datatype 'a op = Enqueue "'a pyval" | Dequeue

fun run_ops :: "'a op list \<Rightarrow> 'a Queue \<Rightarrow> 'a Queue" where
  "run_ops [] q = q"
| "run_ops (Enqueue v # ops) q = run_ops ops (enqueue v q)"
| "run_ops (Dequeue # ops) q = run_ops ops (snd (dequeue q))"

fun dequeue_results :: "'a op list \<Rightarrow> 'a Queue \<Rightarrow> 'a pyval list" where
  "dequeue_results [] q = []"
| "dequeue_results (Enqueue v # ops) q = dequeue_results ops (enqueue v q)"
| "dequeue_results (Dequeue # ops) q = fst (dequeue q) # dequeue_results ops (snd (dequeue q))"

text \<open>
  \<open>items_returned\<close> counts the \<open>dequeue\<close> calls that returned an item: the calls whose
  result is one of the references the buffer held when the call was made. The count reads
  what the call returned, so a stored \<open>None\<close> that is handed out counts as an item, and the
  \<open>None\<close> returned on an empty buffer does not.
\<close>

fun items_returned :: "'a op list \<Rightarrow> 'a Queue \<Rightarrow> nat" where
  "items_returned [] q = 0"
| "items_returned (Enqueue v # ops) q = items_returned ops (enqueue v q)"
| "items_returned (Dequeue # ops) q =
     (if fst (dequeue q) \<in> set (buffer q) then 1 else 0)
       + items_returned ops (snd (dequeue q))"

fun enqueues_completed :: "'a op list \<Rightarrow> nat" where
  "enqueues_completed [] = 0"
| "enqueues_completed (Enqueue v # ops) = Suc (enqueues_completed ops)"
| "enqueues_completed (Dequeue # ops) = enqueues_completed ops"

text \<open>
  The specification's view of the same calls, written from its words and independent of
  the buffer's layout. \<open>outstanding\<close> is the list of items enqueued and not yet dequeued,
  oldest first: an enqueue adds at the tail, a dequeue removes the head if there is one.
  \<open>handed_out\<close> is what each dequeue yields: the head, or nothing when no item is
  outstanding. \<open>sentinel_or_item\<close> is how the queue reports that: nothing is \<open>None\<close>.
\<close>

fun outstanding :: "'a op list \<Rightarrow> 'a pyval list \<Rightarrow> 'a pyval list" where
  "outstanding [] xs = xs"
| "outstanding (Enqueue v # ops) xs = outstanding ops (xs @ [v])"
| "outstanding (Dequeue # ops) xs = outstanding ops (drop 1 xs)"

fun handed_out :: "'a op list \<Rightarrow> 'a pyval list \<Rightarrow> 'a pyval option list" where
  "handed_out [] xs = []"
| "handed_out (Enqueue v # ops) xs = handed_out ops (xs @ [v])"
| "handed_out (Dequeue # ops) xs =
     (case xs of [] \<Rightarrow> None | x # rest \<Rightarrow> Some x) # handed_out ops (drop 1 xs)"

fun sentinel_or_item :: "'a pyval option \<Rightarrow> 'a pyval" where
  "sentinel_or_item None = PyNone"
| "sentinel_or_item (Some v) = v"

section \<open>logistics\_tracker.py: the status state machine\<close>

text \<open>
  \<open>STATUS_TRANSITIONS\<close> is a dict literal; its entries are kept in source order, since
  \<open>STATUS_ORDER\<close> is the list of its keys. The value of the last entry is \<open>None\<close>.
\<close>

definition STATUS_TRANSITIONS :: "(string pyval \<times> string pyval) list" where
  "STATUS_TRANSITIONS =
     [(Obj ''Not Shipped'', Obj ''In-Transit''),
      (Obj ''In-Transit'', Obj ''Waiting to Offload''),
      (Obj ''Waiting to Offload'', Obj ''Offloaded''),
      (Obj ''Offloaded'', PyNone)]"

definition STATUS_ORDER :: "string pyval list" where
  "STATUS_ORDER = map fst STATUS_TRANSITIONS"

text \<open>
  \<open>next_status\<close>: a key that is not in the dict raises \<open>ValueError\<close> with the message
  \<open>Unknown status: '<current>'\<close> (\<open>CHR 0x27\<close> is the single quote); otherwise the dict is
  subscripted, which would raise \<open>KeyError\<close> on a missing key. The argument is any
  reference, since the processor passes whatever the order's status field holds.
\<close>

definition next_status :: "string pyval \<Rightarrow> pyexc + string pyval" where
  "next_status current =
     (if current \<notin> set (map fst STATUS_TRANSITIONS)
      then Inl (PyExc ''ValueError''
                 (''Unknown status: '' @ [CHR 0x27] @ str_of current @ [CHR 0x27]))
      else (case map_of STATUS_TRANSITIONS current of
              Some nxt \<Rightarrow> Inr nxt
            | None \<Rightarrow> Inl (PyExc ''KeyError'' (str_of current))))"

text \<open>\<open>raises c r\<close>: the call with outcome \<open>r\<close> raised an exception of class \<open>c\<close>.\<close>

fun raises :: "string \<Rightarrow> pyexc + 'a \<Rightarrow> bool" where
  "raises c (Inl e) = (exc_class e = c)"
| "raises c (Inr v) = False"

text \<open>\<open>status = next_status(status)\<close>, \<open>n\<close> times over, stopping at the first exception.\<close>

fun status_after :: "nat \<Rightarrow> string pyval \<Rightarrow> pyexc + string pyval" where
  "status_after 0 s = Inr s"
| "status_after (Suc n) s =
     (case next_status s of Inl e \<Rightarrow> Inl e | Inr t \<Rightarrow> status_after n t)"

section \<open>logistics\_tracker.py: orders, generator and processor\<close>

text \<open>
  An entry of \<open>ORDERS\<close> is a dict with the keys \<open>order_id\<close> and \<open>destination\<close>; the
  generator's \<open>{**order_data, "status": "Not Shipped"}\<close> adds the key \<open>status\<close>.
\<close>

record order_data =
  order_id :: string
  destination :: string

record order = order_data +
  status :: "string pyval"

definition ORDERS :: "order_data list" where
  "ORDERS =
     [\<lparr>order_id = ''68862131'', destination = ''Cairo''\<rparr>,
      \<lparr>order_id = ''68862132'', destination = ''Dubai''\<rparr>,
      \<lparr>order_id = ''68862133'', destination = ''Jeddah''\<rparr>,
      \<lparr>order_id = ''68862134'', destination = ''Ryadh''\<rparr>,
      \<lparr>order_id = ''68862135'', destination = ''Luxor''\<rparr>]"

text \<open>
  The lines printed about an order, each with the order as it is when the line is
  printed: \<open>[DISPATCH]\<close> and \<open>[UPDATE]\<close> from \<open>print_status\<close>, \<open>[PROCESS ]\<close> and \<open>[DONE    ]\<close>
  from the processor. Banners, separators and the two closing summaries are left out, and
  so is \<open>time.sleep\<close>: neither touches the queue or an order.
\<close>

datatype event = DISPATCH order | PROCESS order | UPDATE order | DONE order

text \<open>
  A dict is a mutable object, and the queue holds references to dicts, not copies: a dict
  that is reachable twice is one object, and a change made through one reference is seen
  through the other. So the dicts live in a store, addressed by natural numbers, and the
  queue of the tracker holds addresses. \<open>next_ref\<close> is the first address not yet handed
  out; creating a dict takes it.
\<close>

type_synonym ref = nat

record store =
  objs :: "ref \<Rightarrow> order"
  next_ref :: ref

text \<open>\<open>new_dict\<close>: a new dict with the given contents; its address and the store after.\<close>

definition new_dict :: "order \<Rightarrow> store \<Rightarrow> ref \<times> store" where
  "new_dict ord h = (next_ref h, h\<lparr>objs := (objs h)(next_ref h := ord),
                                    next_ref := Suc (next_ref h)\<rparr>)"

text \<open>
  \<open>generate_orders\<close>. The loop runs over the module global \<open>ORDERS\<close>, which is the first
  argument here so that a run on any order source can be stated; \<open>total_orders\<close> is only
  printed. Each iteration builds a new dict, prints it and enqueues the reference to it.
\<close>

fun generate_orders ::
  "order_data list \<Rightarrow> store \<Rightarrow> ref Queue \<Rightarrow> int \<Rightarrow> store \<times> ref Queue \<times> event list" where
  "generate_orders [] h q total_orders = (h, q, [])"
| "generate_orders (order_data # rest) h q total_orders =
     (case new_dict \<lparr>order_id = order_id order_data, destination = destination order_data,
                     status = Obj ''Not Shipped''\<rparr> h of
        (r, h') \<Rightarrow>
          (case generate_orders rest h' (enqueue (Obj r) q) total_orders of
             (h'', q', evs) \<Rightarrow> (h'', q', DISPATCH (objs h' r) # evs)))"

text \<open>
  The measure of the advance loop: how many transitions separate a status from
  \<open>Offloaded\<close>. It appears only in the termination proof.
\<close>

definition steps_left :: "string pyval \<Rightarrow> nat" where
  "steps_left s =
     (if s = Obj ''Not Shipped'' then 3
      else if s = Obj ''In-Transit'' then 2
      else if s = Obj ''Waiting to Offload'' then 1
      else 0)"

text \<open>
  The inner loop of \<open>process_orders\<close>:
  \<^verbatim>\<open>
  while order["status"] != "Offloaded":
      new_status = next_status(order["status"])
      order["status"] = new_status
      print_status(order, event="UPDATE")
  \<close>
  The loop reads and writes the one dict that \<open>order\<close> refers to and nothing else, so it
  is a function of that dict's contents: it returns the contents as the loop leaves them
  and the \<open>[UPDATE]\<close> lines printed, or the exception that \<open>next_status\<close> raised. The
  caller puts the contents back at the dict's address.
\<close>

function advance :: "order \<Rightarrow> pyexc + (order \<times> event list)" where
  "advance ord =
     (if status ord \<noteq> Obj ''Offloaded''
      then (case next_status (status ord) of
              Inl e \<Rightarrow> Inl e
            | Inr new_status \<Rightarrow>
                (case advance (ord\<lparr>status := new_status\<rparr>) of
                   Inl e \<Rightarrow> Inl e
                 | Inr (fin, evs) \<Rightarrow>
                     Inr (fin, UPDATE (ord\<lparr>status := new_status\<rparr>) # evs)))
      else Inr (ord, []))"
  by pat_completeness auto
termination
proof (relation "measure (\<lambda>ord. steps_left (status ord))")
  show "wf (measure (\<lambda>ord. steps_left (status ord)))" by simp
next
  fix ord :: order and t
  assume "status ord \<noteq> Obj ''Offloaded''" and "next_status (status ord) = Inr t"
  then have "steps_left t < steps_left (status ord)"
    by (auto simp add: next_status_def STATUS_TRANSITIONS_def steps_left_def
        split: if_splits)
  then show "(ord\<lparr>status := t\<rparr>, ord) \<in> measure (\<lambda>ord. steps_left (status ord))"
    by simp
qed

declare advance.simps [simp del]

text \<open>
  The statuses an order goes through in the advance loop: the one it is picked up with,
  then the one each \<open>[UPDATE]\<close> line shows.
\<close>

fun event_order :: "event \<Rightarrow> order" where
  "event_order (DISPATCH x) = x"
| "event_order (PROCESS x) = x"
| "event_order (UPDATE x) = x"
| "event_order (DONE x) = x"

definition statuses_visited :: "order \<Rightarrow> event list \<Rightarrow> string pyval list" where
  "statuses_visited ord evs = status ord # map (\<lambda>ev. status (event_order ev)) evs"

text \<open>
  The outer loop of \<open>process_orders\<close>, run on its own (no generator running beside it):
  \<^verbatim>\<open>
  while processed < total_orders:
      if not q.is_empty():
          order = q.dequeue()
          print(... order['order_id'] ...)
          <advance loop>
          processed += 1
      else:
          time.sleep(0.5)
  \<close>
  \<open>order\<close> is the dequeued reference; the advance loop changes the dict at that address,
  in place. With an empty queue and \<open>processed < total_orders\<close> the loop polls forever,
  so the result is an option: \<open>None\<close> when the loop does not return. \<open>Some (Inl e)\<close> is
  an exception: subscripting \<open>None\<close> raises \<open>TypeError\<close>, and \<open>next_status\<close> may raise.
\<close>

partial_function (option) process_loop ::
  "store \<Rightarrow> ref Queue \<Rightarrow> int \<Rightarrow> int \<Rightarrow> event list
     \<Rightarrow> (pyexc + (store \<times> ref Queue \<times> int \<times> event list)) option"
where
  "process_loop h q processed total_orders evs =
     (if processed < total_orders
      then (if \<not> is_empty q
            then (case dequeue q of
                    (PyNone, q') \<Rightarrow>
                      Some (Inl (PyExc ''TypeError''
                        ([CHR 0x27] @ ''NoneType'' @ [CHR 0x27]
                           @ '' object is not subscriptable'')))
                  | (Obj r, q') \<Rightarrow>
                      (case advance (objs h r) of
                         Inl e \<Rightarrow> Some (Inl e)
                       | Inr (fin, ups) \<Rightarrow>
                           process_loop (h\<lparr>objs := (objs h)(r := fin)\<rparr>) q'
                             (processed + 1) total_orders
                             (evs @ PROCESS (objs h r) # ups @ [DONE fin])))
            else process_loop h q processed total_orders evs)
      else Some (Inr (h, q, processed, evs)))"

declare process_loop.simps [code]

text \<open>\<open>process_orders\<close>: \<open>processed = 0\<close>, then the loop. It returns the store, the queue,
  the count of processed orders and the lines printed.\<close>

definition process_orders ::
  "store \<Rightarrow> ref Queue \<Rightarrow> int
     \<Rightarrow> (pyexc + (store \<times> ref Queue \<times> int \<times> event list)) option" where
  "process_orders h q total_orders = process_loop h q 0 total_orders []"

section \<open>The queue: FIFO order\<close>

lemma buffer_enqueue_all: "buffer (enqueue_all vs q) = rev vs @ buffer q"
  by (induction vs arbitrary: q) (simp_all add: enqueue_def)

lemma dequeue_snoc:
  "dequeue (q\<lparr>buffer := xs @ [x]\<rparr>) = (x, q\<lparr>buffer := xs\<rparr>)"
  by (simp add: dequeue_def is_empty_unsafe_def)

lemma dequeue_n_rev:
  "dequeue_n (length vs) (q\<lparr>buffer := rev vs\<rparr>) = (vs, q\<lparr>buffer := []\<rparr>)"
proof (induction vs arbitrary: q)
  case Nil
  show ?case by simp
next
  case (Cons v vs)
  have "dequeue (q\<lparr>buffer := rev vs @ [v]\<rparr>) = (v, q\<lparr>buffer := rev vs\<rparr>)"
    by (rule dequeue_snoc)
  moreover have "dequeue_n (length vs) (q\<lparr>buffer := rev vs\<rparr>) = (vs, q\<lparr>buffer := []\<rparr>)"
    by (rule Cons.IH)
  ultimately show ?case by simp
qed

text \<open>
  Claim C1. After N enqueues on a new queue and then N dequeues, with nothing in
  between, the dequeues have returned the enqueued items in the order of the enqueues
  (and the queue is empty again).
\<close>

theorem fifo_enqueues_then_dequeues:
  "dequeue_n (length vs) (enqueue_all vs Queue_init) = (vs, Queue_init)"
proof -
  have "enqueue_all vs Queue_init = (Queue_init :: 'a Queue)\<lparr>buffer := rev vs\<rparr>"
    using buffer_enqueue_all [of vs "Queue_init :: 'a Queue"]
    by (simp add: Queue_init_def)
  then show ?thesis
    using dequeue_n_rev [of vs "Queue_init :: 'a Queue"]
    by (simp add: Queue_init_def)
qed

subsection \<open>Size and contents under any sequence of calls\<close>

lemma dequeue_nonempty:
  "buffer q \<noteq> [] \<Longrightarrow> dequeue q = (last (buffer q), q\<lparr>buffer := butlast (buffer q)\<rparr>)"
  by (simp add: dequeue_def is_empty_unsafe_def)

lemma dequeue_empty: "buffer q = [] \<Longrightarrow> dequeue q = (PyNone, q)"
  by (simp add: dequeue_def is_empty_unsafe_def)

lemma rev_butlast_drop: "rev (butlast xs) = drop 1 (rev xs)"
  by (cases xs rule: rev_cases) simp_all

lemma size_run_ops:
  "size_q (run_ops ops q) + items_returned ops q = size_q q + enqueues_completed ops"
proof (induction ops arbitrary: q)
  case Nil
  show ?case by simp
next
  case (Cons a ops)
  show ?case
  proof (cases a)
    case (Enqueue v)
    then show ?thesis
      using Cons.IH [of "enqueue v q"] by (simp add: enqueue_def size_q_def)
  next
    case Dequeue
    show ?thesis
    proof (cases "buffer q = []")
      case True
      then show ?thesis
        using Dequeue Cons.IH [of q] by (simp add: dequeue_empty)
    next
      case False
      then show ?thesis
        using Dequeue Cons.IH [of "q\<lparr>buffer := butlast (buffer q)\<rparr>"]
        by (simp add: dequeue_nonempty size_q_def)
    qed
  qed
qed

lemma repr_run_ops:
  "repr_items (run_ops ops q) = outstanding ops (repr_items q)"
proof (induction ops arbitrary: q)
  case Nil
  show ?case by simp
next
  case (Cons a ops)
  show ?case
  proof (cases a)
    case (Enqueue v)
    then show ?thesis
      using Cons.IH [of "enqueue v q"] by (simp add: enqueue_def repr_items_def)
  next
    case Dequeue
    then show ?thesis
      using Cons.IH [of "snd (dequeue q)"]
      by (simp add: dequeue_def is_empty_unsafe_def repr_items_def rev_butlast_drop)
  qed
qed

lemma results_run_ops:
  "dequeue_results ops q = map sentinel_or_item (handed_out ops (repr_items q))"
proof (induction ops arbitrary: q)
  case Nil
  show ?case by simp
next
  case (Cons a ops)
  show ?case
  proof (cases a)
    case (Enqueue v)
    then show ?thesis
      using Cons.IH [of "enqueue v q"] by (simp add: enqueue_def repr_items_def)
  next
    case Dequeue
    show ?thesis
    proof (cases "buffer q = []")
      case True
      then show ?thesis
        using Dequeue Cons.IH [of q] by (simp add: dequeue_empty repr_items_def)
    next
      case False
      then obtain ys y where "buffer q = ys @ [y]"
        by (cases "buffer q" rule: rev_cases) auto
      then have "(case rev (buffer q) of [] \<Rightarrow> None | x # rest \<Rightarrow> Some x)
                   = Some (last (buffer q))"
        by simp
      then show ?thesis
        using False Dequeue Cons.IH [of "q\<lparr>buffer := butlast (buffer q)\<rparr>"]
        by (simp add: dequeue_nonempty repr_items_def rev_butlast_drop)
    qed
  qed
qed

lemma count_run_ops:
  "items_returned ops q = length (filter (\<lambda>r. r \<noteq> None) (handed_out ops (repr_items q)))"
proof (induction ops arbitrary: q)
  case Nil
  show ?case by simp
next
  case (Cons a ops)
  show ?case
  proof (cases a)
    case (Enqueue v)
    then show ?thesis
      using Cons.IH [of "enqueue v q"] by (simp add: enqueue_def repr_items_def)
  next
    case Dequeue
    show ?thesis
    proof (cases "buffer q = []")
      case True
      then show ?thesis
        using Dequeue Cons.IH [of q] by (simp add: dequeue_empty repr_items_def)
    next
      case False
      then have "(case rev (buffer q) of [] \<Rightarrow> None | x # rest \<Rightarrow> Some x) \<noteq> None"
        by (cases "rev (buffer q)") simp_all
      then show ?thesis
        using False Dequeue Cons.IH [of "q\<lparr>buffer := butlast (buffer q)\<rparr>"]
        by (simp add: dequeue_nonempty repr_items_def rev_butlast_drop)
    qed
  qed
qed

text \<open>
  Claim C7. After any sequence of \<open>enqueue\<close> and \<open>dequeue\<close> calls on a new queue, run
  one after the other: the dequeues that returned an item are no more than the enqueues,
  \<open>size()\<close> is the number of enqueues minus the number of dequeues that returned an item,
  the buffer read oldest first is the list of items enqueued and not yet dequeued, and
  \<open>is_empty()\<close> is true exactly when that number is zero. What the dequeues returned is
  what a FIFO hands out, call by call (the oldest outstanding item, or \<open>None\<close> when there
  is none), and the dequeues counted as having returned an item are exactly those for
  which an item was outstanding.
\<close>

theorem queue_size_and_contents:
  "items_returned ops Queue_init \<le> enqueues_completed ops
   \<and> size_q (run_ops ops Queue_init)
       = enqueues_completed ops - items_returned ops Queue_init
   \<and> repr_items (run_ops ops Queue_init) = outstanding ops []
   \<and> is_empty (run_ops ops Queue_init)
       = (enqueues_completed ops - items_returned ops Queue_init = 0)
   \<and> dequeue_results ops Queue_init = map sentinel_or_item (handed_out ops [])
   \<and> items_returned ops Queue_init
       = length (filter (\<lambda>r. r \<noteq> None) (handed_out ops []))"
proof -
  have s: "size_q (run_ops ops (Queue_init :: 'a Queue))
             + items_returned ops (Queue_init :: 'a Queue)
           = enqueues_completed ops"
    using size_run_ops [of ops "Queue_init :: 'a Queue"]
    by (simp add: size_q_def Queue_init_def)
  have r: "repr_items (run_ops ops (Queue_init :: 'a Queue)) = outstanding ops []"
    using repr_run_ops [of ops "Queue_init :: 'a Queue"]
    by (simp add: repr_items_def Queue_init_def)
  have e: "is_empty (run_ops ops (Queue_init :: 'a Queue))
             = (size_q (run_ops ops (Queue_init :: 'a Queue)) = 0)"
    by (simp add: is_empty_def is_empty_unsafe_def size_q_def)
  have t: "dequeue_results ops (Queue_init :: 'a Queue)
             = map sentinel_or_item (handed_out ops [])"
    using results_run_ops [of ops "Queue_init :: 'a Queue"]
    by (simp add: repr_items_def Queue_init_def)
  have c: "items_returned ops (Queue_init :: 'a Queue)
             = length (filter (\<lambda>r. r \<noteq> None) (handed_out ops []))"
    using count_run_ops [of ops "Queue_init :: 'a Queue"]
    by (simp add: repr_items_def Queue_init_def)
  from s r e t c show ?thesis by auto
qed

subsection \<open>The empty queue and the sentinel\<close>

text \<open>
  Claim C8. \<open>dequeue\<close> on an empty queue returns \<open>None\<close>, raises nothing, and leaves the
  queue as it was: \<open>size()\<close> is still 0 and \<open>is_empty()\<close> still true.
\<close>

theorem dequeue_empty_returns_none:
  "dequeue Queue_init = (PyNone, Queue_init)
   \<and> size_q (snd (dequeue Queue_init)) = 0
   \<and> is_empty (snd (dequeue Queue_init))"
  by (simp add: dequeue_def is_empty_def is_empty_unsafe_def size_q_def Queue_init_def)

text \<open>
  Claim C10. \<open>None\<close> can be stored, and the sentinel is \<open>None\<close> too: the queue made by
  \<open>enqueue(None)\<close> on a new queue is not empty, and \<open>dequeue\<close> on it returns the very
  result that \<open>dequeue\<close> on the empty queue returns.
\<close>

theorem none_sentinel_ambiguous:
  "\<not> is_empty (enqueue PyNone Queue_init)
   \<and> size_q (enqueue PyNone Queue_init) = 1
   \<and> fst (dequeue (enqueue PyNone Queue_init)) = PyNone
   \<and> fst (dequeue Queue_init) = PyNone
   \<and> is_empty Queue_init"
  by (simp add: dequeue_def enqueue_def is_empty_def is_empty_unsafe_def size_q_def
      Queue_init_def)


section \<open>The state machine\<close>

lemma status_order_eq:
  "STATUS_ORDER =
     [Obj ''Not Shipped'', Obj ''In-Transit'', Obj ''Waiting to Offload'', Obj ''Offloaded'']"
  by (simp add: STATUS_ORDER_def STATUS_TRANSITIONS_def)

lemma next_status_not_shipped:
  "next_status (Obj ''Not Shipped'') = Inr (Obj ''In-Transit'')"
  by (simp add: next_status_def STATUS_TRANSITIONS_def)

lemma next_status_in_transit:
  "next_status (Obj ''In-Transit'') = Inr (Obj ''Waiting to Offload'')"
  by (simp add: next_status_def STATUS_TRANSITIONS_def)

lemma next_status_waiting:
  "next_status (Obj ''Waiting to Offload'') = Inr (Obj ''Offloaded'')"
  by (simp add: next_status_def STATUS_TRANSITIONS_def)

text \<open>
  Claim C4. \<open>next_status\<close> on the terminal status \<open>Offloaded\<close> returns \<open>None\<close>: a normal
  return (\<open>Inr\<close>), not an exception, and not a status.
\<close>

theorem next_status_offloaded:
  "next_status (Obj ''Offloaded'') = Inr PyNone"
  by (simp add: next_status_def STATUS_TRANSITIONS_def)

text \<open>
  Claim C5. \<open>STATUS_ORDER\<close> lists the four statuses in the order of progression,
  without repetition, and on each status but the last \<open>next_status\<close> returns the entry
  that follows it in that list: one step forward, and again a member of the list.
\<close>

theorem next_status_immediate_successor:
  assumes "s \<in> set STATUS_ORDER" and "s \<noteq> Obj ''Offloaded''"
  shows "STATUS_ORDER =
           [Obj ''Not Shipped'', Obj ''In-Transit'', Obj ''Waiting to Offload'',
            Obj ''Offloaded'']
         \<and> distinct STATUS_ORDER
         \<and> (\<exists>i. Suc i < length STATUS_ORDER \<and> STATUS_ORDER ! i = s
               \<and> next_status s = Inr (STATUS_ORDER ! Suc i)
               \<and> STATUS_ORDER ! Suc i \<in> set STATUS_ORDER)"
proof -
  have d: "distinct STATUS_ORDER"
    by (simp add: status_order_eq)
  from assms consider "s = Obj ''Not Shipped''" | "s = Obj ''In-Transit''"
    | "s = Obj ''Waiting to Offload''"
    by (auto simp add: status_order_eq)
  then have "\<exists>i. Suc i < length STATUS_ORDER \<and> STATUS_ORDER ! i = s
               \<and> next_status s = Inr (STATUS_ORDER ! Suc i)
               \<and> STATUS_ORDER ! Suc i \<in> set STATUS_ORDER"
  proof cases
    case 1
    then have "Suc 0 < length STATUS_ORDER \<and> STATUS_ORDER ! 0 = s
            \<and> next_status s = Inr (STATUS_ORDER ! Suc 0)
            \<and> STATUS_ORDER ! Suc 0 \<in> set STATUS_ORDER"
      by (simp add: status_order_eq next_status_not_shipped)
    then show ?thesis by blast
  next
    case 2
    then have "Suc 1 < length STATUS_ORDER \<and> STATUS_ORDER ! 1 = s
            \<and> next_status s = Inr (STATUS_ORDER ! Suc 1)
            \<and> STATUS_ORDER ! Suc 1 \<in> set STATUS_ORDER"
      by (simp add: status_order_eq next_status_in_transit)
    then show ?thesis by blast
  next
    case 3
    then have "Suc 2 < length STATUS_ORDER \<and> STATUS_ORDER ! 2 = s
            \<and> next_status s = Inr (STATUS_ORDER ! Suc 2)
            \<and> STATUS_ORDER ! Suc 2 \<in> set STATUS_ORDER"
      by (simp add: status_order_eq next_status_waiting numeral_2_eq_2 numeral_3_eq_3)
    then show ?thesis by blast
  qed
  with d show ?thesis
    by (simp add: status_order_eq [symmetric])
qed

text \<open>The theorem at \<open>In-Transit\<close>, whose successor is the entry at index 2.\<close>

theorem next_status_immediate_successor_witness:
  "Obj ''In-Transit'' \<in> set STATUS_ORDER
   \<and> Obj ''In-Transit'' \<noteq> (Obj ''Offloaded'' :: string pyval)
   \<and> distinct STATUS_ORDER
   \<and> (\<exists>i. Suc i < length STATUS_ORDER \<and> STATUS_ORDER ! i = Obj ''In-Transit''
         \<and> next_status (Obj ''In-Transit'') = Inr (STATUS_ORDER ! Suc i))"
proof -
  have h1: "Obj ''In-Transit'' \<in> set STATUS_ORDER"
    by (simp add: status_order_eq)
  have h2: "Obj ''In-Transit'' \<noteq> (Obj ''Offloaded'' :: string pyval)"
    by simp
  show ?thesis
    using h1 h2 next_status_immediate_successor [OF h1 h2] by blast
qed

text \<open>
  Claim C2, as the code has it. On every string other than the four statuses,
  \<open>next_status\<close> raises the built-in \<open>ValueError\<close>, and the message is
  \<open>Unknown status: '<the string>'\<close>, which names the offending value.
\<close>

theorem next_status_unknown_raises_value_error:
  assumes "s \<notin> {''Not Shipped'', ''In-Transit'', ''Waiting to Offload'', ''Offloaded''}"
  shows "next_status (Obj s) =
           Inl (PyExc ''ValueError'' (''Unknown status: '' @ [CHR 0x27] @ s @ [CHR 0x27]))
         \<and> raises ''ValueError'' (next_status (Obj s))"
  using assms by (simp add: next_status_def STATUS_TRANSITIONS_def)

theorem next_status_unknown_raises_value_error_witness:
  "''Lost'' \<notin> {''Not Shipped'', ''In-Transit'', ''Waiting to Offload'', ''Offloaded''}
   \<and> next_status (Obj ''Lost'') =
       Inl (PyExc ''ValueError'' (''Unknown status: '' @ [CHR 0x27] @ ''Lost'' @ [CHR 0x27]))
   \<and> raises ''ValueError'' (next_status (Obj ''Lost''))"
  using next_status_unknown_raises_value_error [of "''Lost''"]
  by simp

text \<open>
  The specification names the exception \<open>UnknownStatusError\<close>. No such class is raised:
  on the string \<open>Lost\<close> the exception is a \<open>ValueError\<close>.
\<close>

theorem next_status_unknown_counterexample:
  "next_status (Obj ''Lost'') =
     Inl (PyExc ''ValueError'' (''Unknown status: '' @ [CHR 0x27] @ ''Lost'' @ [CHR 0x27]))
   \<and> \<not> raises ''UnknownStatusError'' (next_status (Obj ''Lost''))"
  by (simp add: next_status_def STATUS_TRANSITIONS_def)

section \<open>The processor\<close>

lemma advance_done: "status ord = Obj ''Offloaded'' \<Longrightarrow> advance ord = Inr (ord, [])"
  by (subst advance.simps) simp

lemma advance_step:
  "status ord \<noteq> Obj ''Offloaded'' \<Longrightarrow> next_status (status ord) = Inr t \<Longrightarrow>
   advance ord =
     (case advance (ord\<lparr>status := t\<rparr>) of
        Inl e \<Rightarrow> Inl e
      | Inr (fin, evs) \<Rightarrow> Inr (fin, UPDATE (ord\<lparr>status := t\<rparr>) # evs))"
  by (subst advance.simps) simp

lemma advance_waiting:
  "status ord = Obj ''Waiting to Offload'' \<Longrightarrow>
   advance ord =
     Inr (ord\<lparr>status := Obj ''Offloaded''\<rparr>, [UPDATE (ord\<lparr>status := Obj ''Offloaded''\<rparr>)])"
  using advance_step [of ord "Obj ''Offloaded''"]
  by (simp add: next_status_waiting advance_done)

lemma advance_in_transit:
  "status ord = Obj ''In-Transit'' \<Longrightarrow>
   advance ord =
     Inr (ord\<lparr>status := Obj ''Offloaded''\<rparr>,
          [UPDATE (ord\<lparr>status := Obj ''Waiting to Offload''\<rparr>),
           UPDATE (ord\<lparr>status := Obj ''Offloaded''\<rparr>)])"
  using advance_step [of ord "Obj ''Waiting to Offload''"]
  by (simp add: next_status_in_transit advance_waiting)

lemma advance_not_shipped:
  "status ord = Obj ''Not Shipped'' \<Longrightarrow>
   advance ord =
     Inr (ord\<lparr>status := Obj ''Offloaded''\<rparr>,
          [UPDATE (ord\<lparr>status := Obj ''In-Transit''\<rparr>),
           UPDATE (ord\<lparr>status := Obj ''Waiting to Offload''\<rparr>),
           UPDATE (ord\<lparr>status := Obj ''Offloaded''\<rparr>)])"
  using advance_step [of ord "Obj ''In-Transit''"]
  by (simp add: next_status_not_shipped advance_in_transit)

text \<open>
  Claim C3. For an order picked up with status \<open>Not Shipped\<close>, the advance loop returns
  normally, and the statuses the order goes through are exactly \<open>Not Shipped\<close>,
  \<open>In-Transit\<close>, \<open>Waiting to Offload\<close>, \<open>Offloaded\<close>: the list \<open>STATUS_ORDER\<close>, each
  status once, in that order, ending at \<open>Offloaded\<close>. Identifier and destination are
  untouched.
\<close>

theorem advance_visits_all:
  assumes "status ord = Obj ''Not Shipped''"
  shows "\<exists>fin evs. advance ord = Inr (fin, evs)
           \<and> statuses_visited ord evs =
               [Obj ''Not Shipped'', Obj ''In-Transit'', Obj ''Waiting to Offload'',
                Obj ''Offloaded'']
           \<and> statuses_visited ord evs = STATUS_ORDER
           \<and> distinct (statuses_visited ord evs)
           \<and> status fin = Obj ''Offloaded''
           \<and> order_id fin = order_id ord \<and> destination fin = destination ord"
  using assms advance_not_shipped [OF assms]
  by (simp add: statuses_visited_def status_order_eq)

text \<open>The theorem at the first order of \<open>ORDERS\<close>, as the generator enqueues it.\<close>

theorem advance_visits_all_witness:
  "status \<lparr>order_id = ''68862131'', destination = ''Cairo'', status = Obj ''Not Shipped''\<rparr>
     = Obj ''Not Shipped''
   \<and> (\<exists>fin evs.
        advance \<lparr>order_id = ''68862131'', destination = ''Cairo'',
                  status = Obj ''Not Shipped''\<rparr> = Inr (fin, evs)
        \<and> statuses_visited \<lparr>order_id = ''68862131'', destination = ''Cairo'',
                  status = Obj ''Not Shipped''\<rparr> evs = STATUS_ORDER
        \<and> status fin = Obj ''Offloaded'')"
  using advance_visits_all
    [of "\<lparr>order_id = ''68862131'', destination = ''Cairo'', status = Obj ''Not Shipped''\<rparr>"]
  by auto

text \<open>
  Claim C6. From each of the four statuses, at most three applications of
  \<open>next_status\<close> lead to \<open>Offloaded\<close>; and the advance loop on an order with such a status
  returns normally, with the order at \<open>Offloaded\<close>, after at most three iterations (one
  \<open>[UPDATE]\<close> line is printed per iteration).
\<close>

theorem advance_terminates:
  assumes "status ord \<in> set STATUS_ORDER"
  shows "(\<exists>n\<le>3. status_after n (status ord) = Inr (Obj ''Offloaded''))
         \<and> (\<exists>fin evs. advance ord = Inr (fin, evs) \<and> status fin = Obj ''Offloaded''
               \<and> length evs \<le> 3)"
proof -
  from assms consider "status ord = Obj ''Not Shipped''" | "status ord = Obj ''In-Transit''"
    | "status ord = Obj ''Waiting to Offload''" | "status ord = Obj ''Offloaded''"
    by (auto simp add: status_order_eq)
  then show ?thesis
  proof cases
    case 1
    have "status_after 3 (status ord) = Inr (Obj ''Offloaded'')"
      by (simp add: 1 numeral_3_eq_3 next_status_not_shipped next_status_in_transit
          next_status_waiting)
    then have "\<exists>n\<le>3. status_after n (status ord) = Inr (Obj ''Offloaded'')"
      by blast
    then show ?thesis
      by (simp add: advance_not_shipped [OF 1])
  next
    case 2
    have "status_after 2 (status ord) = Inr (Obj ''Offloaded'')"
      by (simp add: 2 numeral_2_eq_2 next_status_in_transit next_status_waiting)
    moreover have "(2::nat) \<le> 3"
      by simp
    ultimately have "\<exists>n\<le>3. status_after n (status ord) = Inr (Obj ''Offloaded'')"
      by blast
    then show ?thesis
      by (simp add: advance_in_transit [OF 2])
  next
    case 3
    have "status_after 1 (status ord) = Inr (Obj ''Offloaded'')"
      by (simp add: 3 next_status_waiting)
    moreover have "(1::nat) \<le> 3"
      by simp
    ultimately have "\<exists>n\<le>3. status_after n (status ord) = Inr (Obj ''Offloaded'')"
      by blast
    then show ?thesis
      by (simp add: advance_waiting [OF 3])
  next
    case 4
    have "status_after 0 (status ord) = Inr (Obj ''Offloaded'')"
      by (simp add: 4)
    moreover have "(0::nat) \<le> 3"
      by simp
    ultimately have "\<exists>n\<le>3. status_after n (status ord) = Inr (Obj ''Offloaded'')"
      by blast
    then show ?thesis
      by (simp add: advance_done [OF 4] 4)
  qed
qed

text \<open>The theorem at an order that is already \<open>In-Transit\<close>.\<close>

theorem advance_terminates_witness:
  "status \<lparr>order_id = ''68862132'', destination = ''Dubai'', status = Obj ''In-Transit''\<rparr>
     \<in> set STATUS_ORDER
   \<and> (\<exists>n\<le>3. status_after n (Obj ''In-Transit'') = Inr (Obj ''Offloaded''))
   \<and> (\<exists>fin evs.
        advance \<lparr>order_id = ''68862132'', destination = ''Dubai'',
                  status = Obj ''In-Transit''\<rparr> = Inr (fin, evs)
        \<and> status fin = Obj ''Offloaded'' \<and> length evs \<le> 3)"
proof -
  have h: "status \<lparr>order_id = ''68862132'', destination = ''Dubai'',
                    status = Obj ''In-Transit''\<rparr> \<in> set STATUS_ORDER"
    by (simp add: status_order_eq)
  show ?thesis
    using h advance_terminates [OF h] by simp
qed

lemma process_loop_done:
  "\<not> processed < total_orders \<Longrightarrow>
   process_loop h q processed total_orders evs = Some (Inr (h, q, processed, evs))"
  by (subst process_loop.simps) simp

lemma process_loop_pick:
  "processed < total_orders \<Longrightarrow> buffer q = bs @ [Obj r] \<Longrightarrow>
   advance (objs h r) = Inr (fin, ups) \<Longrightarrow>
   process_loop h q processed total_orders evs =
     process_loop (h\<lparr>objs := (objs h)(r := fin)\<rparr>) (q\<lparr>buffer := bs\<rparr>)
       (processed + 1) total_orders (evs @ PROCESS (objs h r) # ups @ [DONE fin])"
  by (subst process_loop.simps)
     (simp add: is_empty_def is_empty_unsafe_def dequeue_def)

text \<open>
  One dict enqueued twice is one object: the first pick-up takes it to \<open>Offloaded\<close> with
  three \<open>[UPDATE]\<close> lines, and the second pick-up finds it there and prints none.
\<close>

lemma process_same_dict_twice:
  fixes h :: store and ord :: order and r :: ref
  defines "ord0 \<equiv> ord\<lparr>status := Obj ''Not Shipped''\<rparr>"
  defines "h0 \<equiv> h\<lparr>objs := (objs h)(r := ord0)\<rparr>"
  shows "process_orders h0 (enqueue (Obj r) (enqueue (Obj r) Queue_init)) 2 =
           Some (Inr (h0\<lparr>objs := (objs h0)(r := ord\<lparr>status := Obj ''Offloaded''\<rparr>)\<rparr>,
                      Queue_init, 2,
                      [PROCESS ord0,
                       UPDATE (ord\<lparr>status := Obj ''In-Transit''\<rparr>),
                       UPDATE (ord\<lparr>status := Obj ''Waiting to Offload''\<rparr>),
                       UPDATE (ord\<lparr>status := Obj ''Offloaded''\<rparr>),
                       DONE (ord\<lparr>status := Obj ''Offloaded''\<rparr>),
                       PROCESS (ord\<lparr>status := Obj ''Offloaded''\<rparr>),
                       DONE (ord\<lparr>status := Obj ''Offloaded''\<rparr>)]))"
proof -
  let ?off = "ord\<lparr>status := Obj ''Offloaded''\<rparr>"
  let ?h1 = "h0\<lparr>objs := (objs h0)(r := ?off)\<rparr>"
  let ?q2 = "enqueue (Obj r) (enqueue (Obj r) Queue_init)"
  let ?q1 = "?q2\<lparr>buffer := [Obj r]\<rparr>"
  let ?evs1 = "[PROCESS ord0,
                 UPDATE (ord\<lparr>status := Obj ''In-Transit''\<rparr>),
                 UPDATE (ord\<lparr>status := Obj ''Waiting to Offload''\<rparr>),
                 UPDATE ?off, DONE ?off]"
  have a1: "advance (objs h0 r) =
              Inr (?off, [UPDATE (ord\<lparr>status := Obj ''In-Transit''\<rparr>),
                          UPDATE (ord\<lparr>status := Obj ''Waiting to Offload''\<rparr>),
                          UPDATE ?off])"
    using advance_not_shipped [of ord0] by (simp add: h0_def ord0_def)
  have a2: "advance (objs ?h1 r) = Inr (?off, [])"
    using advance_done [of ?off] by simp
  have b2: "buffer ?q2 = [Obj r] @ [Obj r]"
    by (simp add: enqueue_def Queue_init_def)
  have s1: "process_loop h0 ?q2 0 2 [] = process_loop ?h1 ?q1 1 2 ?evs1"
    using process_loop_pick [of 0 2 ?q2 "[Obj r]" r h0, OF _ b2 a1, of "[]"]
    by (simp add: h0_def)
  have b1: "buffer ?q1 = [] @ [Obj r]"
    by simp
  have s2: "process_loop ?h1 ?q1 1 2 ?evs1 =
              process_loop ?h1 (?q1\<lparr>buffer := []\<rparr>) 2 2
                (?evs1 @ [PROCESS ?off, DONE ?off])"
    using process_loop_pick [of 1 2 ?q1 "[]" r ?h1, OF _ b1 a2, of ?evs1]
    by simp
  have s3: "process_loop ?h1 (?q1\<lparr>buffer := []\<rparr>) 2 2 (?evs1 @ [PROCESS ?off, DONE ?off]) =
              Some (Inr (?h1, ?q1\<lparr>buffer := []\<rparr>, 2, ?evs1 @ [PROCESS ?off, DONE ?off]))"
    by (rule process_loop_done) simp
  have q0: "?q1\<lparr>buffer := []\<rparr> = Queue_init"
    by (simp add: enqueue_def Queue_init_def)
  have "process_orders h0 ?q2 2 = process_loop h0 ?q2 0 2 []"
    by (simp add: process_orders_def)
  also note s1
  also note s2
  also note s3
  finally show ?thesis
    by (simp add: q0)
qed

text \<open>
  The generator hands out consecutive new addresses and enqueues them in source order,
  one dispatch line per record.
\<close>

lemma generate_orders_refs:
  "generate_orders src h q total_orders = (h', q', evs) \<Longrightarrow>
   repr_items q' = repr_items q @ map Obj [next_ref h ..< next_ref h + length src]
   \<and> next_ref h' = next_ref h + length src
   \<and> length evs = length src"
proof (induction src arbitrary: h q h' q' evs)
  case Nil
  then show ?case by simp
next
  case (Cons d src)
  let ?ord = "\<lparr>order_id = order_id d, destination = destination d,
               status = Obj ''Not Shipped''\<rparr>"
  let ?h1 = "snd (new_dict ?ord h)"
  let ?q1 = "enqueue (Obj (next_ref h)) q"
  obtain h2 q2 evs2 where g: "generate_orders src ?h1 ?q1 total_orders = (h2, q2, evs2)"
    by (cases "generate_orders src ?h1 ?q1 total_orders") auto
  from Cons.prems g have r: "h' = h2" "q' = q2" "length evs = Suc (length evs2)"
    by (auto simp add: new_dict_def)
  have n: "next_ref ?h1 = Suc (next_ref h)"
    by (simp add: new_dict_def)
  have q: "repr_items ?q1 = repr_items q @ [Obj (next_ref h)]"
    by (simp add: enqueue_def repr_items_def)
  have u: "[next_ref h ..< next_ref h + length (d # src)]
             = next_ref h # [Suc (next_ref h) ..< Suc (next_ref h) + length src]"
    by (subst upt_rec) simp
  from Cons.IH [OF g] n q
  have "repr_items q2 = repr_items q @ map Obj [next_ref h ..< next_ref h + length (d # src)]"
    and "next_ref h2 = next_ref h + length (d # src)"
    and "length evs2 = length src"
    by (simp_all only: u) simp_all
  with r show ?case
    by simp
qed

text \<open>
  Claim C9. On an empty order source the generator creates no dict, enqueues nothing and
  prints no dispatch line; with \<open>total_orders = 0\<close> the processor returns without entering
  its loop, so without a dequeue and without touching a dict, and its count of processed
  orders is 0. The same holds for the processor run on what the generator leaves.
\<close>

theorem empty_source_run:
  "generate_orders [] h q 0 = (h, q, [])
   \<and> process_orders h q 0 = Some (Inr (h, q, 0, []))
   \<and> (case generate_orders [] h Queue_init 0 of
         (h', q', evs) \<Rightarrow> process_orders h' q' 0)
       = Some (Inr (h, Queue_init, 0, []))"
  by (simp add: process_orders_def process_loop.simps)

end
